theory Spec2Isabelle
  imports Complex_Main
begin

section \<open>Data model\<close>

text \<open>
  The script works on numpy arrays of two floating-point coordinates. Coordinates are
  modelled as real numbers, and the operations below are the exact ones: a statement
  about them is a statement about the algorithm, not about rounding. Where rounding
  decides a property, for the points of the Sierpinski sampler and the triangle, the
  float64 operations are modelled as well (section \<open>Float64 arithmetic\<close>). A point is a
  pair, a 2x2 matrix is a pair of rows.
\<close>

type_synonym point = "real \<times> real"
type_synonym matrix = "point \<times> point"

text \<open>The array operations the script uses: \<open>+\<close>, \<open>-\<close>, \<open>k * v\<close>, \<open>v / k\<close> and \<open>M.dot(v)\<close>.\<close>

definition vadd :: "point \<Rightarrow> point \<Rightarrow> point" where
  "vadd p q = (fst p + fst q, snd p + snd q)"

definition vsub :: "point \<Rightarrow> point \<Rightarrow> point" where
  "vsub p q = (fst p - fst q, snd p - snd q)"

definition vscale :: "real \<Rightarrow> point \<Rightarrow> point" where
  "vscale k p = (k * fst p, k * snd p)"

definition vdiv :: "point \<Rightarrow> real \<Rightarrow> point" where
  "vdiv p k = (fst p / k, snd p / k)"

definition mat_dot :: "matrix \<Rightarrow> point \<Rightarrow> point" where
  "mat_dot m p = (fst (fst m) * fst p + snd (fst m) * snd p,
                  fst (snd m) * fst p + snd (snd m) * snd p)"

text \<open>
  The exceptions the modelled statements can raise: \<open>IndexError\<close> (an index outside a
  list or array, a choice from an empty sequence) and \<open>ValueError\<close> (an array allocated
  with a negative dimension).
\<close>

datatype error = IndexError | ValueError

text \<open>
  A transformation is a dictionary with the keys \<open>'matrix'\<close>, \<open>'offset'\<close> and
  \<open>'prob'\<close>.
\<close>

record transformation =
  matrix :: matrix
  offset :: point
  prob :: real

text \<open>The table of the Barnsley fern (lines 25 to 50), in the order of the script.\<close>

definition transformations :: "transformation list" where
  "transformations =
     [\<lparr>matrix = ((0, 0), (0, 16 / 100)), offset = (0, 0), prob = 1 / 100\<rparr>,
      \<lparr>matrix = ((85 / 100, 4 / 100), (- (4 / 100), 85 / 100)), offset = (0, 16 / 10),
        prob = 85 / 100\<rparr>,
      \<lparr>matrix = ((2 / 10, - (26 / 100)), (23 / 100, 22 / 100)), offset = (0, 16 / 10),
        prob = 7 / 100\<rparr>,
      \<lparr>matrix = ((- (15 / 100), 28 / 100), (26 / 100, 24 / 100)), offset = (0, 44 / 100),
        prob = 7 / 100\<rparr>]"

section \<open>The random source\<close>

text \<open>
  The script draws from the global generator of Python's \<open>random\<close> module, which is
  not part of the repository. Its state is modelled as the infinite sequence of the
  draws still to come; a draw returns the head and leaves the rest. \<open>random.random()\<close>
  reads a source of reals, \<open>random.choice\<close> a source of naturals, from which it takes
  an index below the length of the sequence.
\<close>

type_synonym 'a source = "nat \<Rightarrow> 'a"

definition source_drop :: "nat \<Rightarrow> 'a source \<Rightarrow> 'a source" where
  "source_drop k g = (\<lambda>i. g (k + i))"

definition const_source :: "'a \<Rightarrow> 'a source" where
  "const_source x = (\<lambda>i. x)"

text \<open>The source that yields the draws of a list, and a fixed value for ever after.\<close>

definition list_source :: "'a list \<Rightarrow> 'a \<Rightarrow> 'a source" where
  "list_source xs d = (\<lambda>i. if i < length xs then xs ! i else d)"

definition random_random :: "real source \<Rightarrow> real \<times> real source" where
  "random_random g = (g 0, source_drop 1 g)"

definition random_choice :: "'a list \<Rightarrow> nat source \<Rightarrow> error + ('a \<times> nat source)" where
  "random_choice seq g =
     (if seq = [] then Inl IndexError
      else Inr (seq ! (g 0 mod length seq), source_drop 1 g))"

section \<open>Barnsley fern\<close>

text \<open>\<open>apply_transformation\<close> (lines 59 to 61).\<close>

definition apply_transformation :: "point \<Rightarrow> transformation \<Rightarrow> point" where
  "apply_transformation point t = vadd (mat_dot (matrix t) point) (offset t)"

text \<open>
  \<open>choose_transformation\<close> (lines 67 to 75). \<open>choose_loop\<close> is the \<open>for\<close> loop with
  its accumulator; \<open>None\<close> means that the loop ended without returning. The statement
  after the loop reads \<open>transformations[-1]\<close>, which raises \<open>IndexError\<close> on an empty
  list.
\<close>

fun choose_loop :: "real \<Rightarrow> real \<Rightarrow> transformation list \<Rightarrow> transformation option" where
  "choose_loop r cumulative_prob [] = None"
| "choose_loop r cumulative_prob (t # ts) =
     (let cumulative_prob = cumulative_prob + prob t
      in if r \<le> cumulative_prob then Some t else choose_loop r cumulative_prob ts)"

definition choose_transformation ::
  "transformation list \<Rightarrow> real source \<Rightarrow> error + (transformation \<times> real source)" where
  "choose_transformation ts g =
     (case random_random g of
        (r, g') \<Rightarrow>
          (case choose_loop r 0 ts of
             Some t \<Rightarrow> Inr (t, g')
           | None \<Rightarrow> if ts = [] then Inl IndexError else Inr (last ts, g')))"

text \<open>
  The generation part of \<open>animate_barnsley\<close> (lines 82 to 93); the plotting that
  follows is not modelled. The table and the number of points, a global and a local
  constant of the script, are parameters here, and \<open>animate_barnsley\<close> below fixes
  them to the script's values. \<open>np.zeros\<close> raises \<open>ValueError\<close> on a negative
  size, and \<open>points[0] = current_point\<close> raises \<open>IndexError\<close> on an array of size 0.
  \<open>barnsley_loop\<close> is the loop over \<open>range(1, num_points)\<close>.
\<close>

fun barnsley_loop ::
  "transformation list \<Rightarrow> nat list \<Rightarrow> point \<Rightarrow> point list \<Rightarrow> real source
     \<Rightarrow> error + (point list \<times> real source)" where
  "barnsley_loop ts [] current_point points g = Inr (points, g)"
| "barnsley_loop ts (i # rest) current_point points g =
     (case choose_transformation ts g of
        Inl e \<Rightarrow> Inl e
      | Inr (t, g') \<Rightarrow>
          (let current_point = apply_transformation current_point t
           in barnsley_loop ts rest current_point (points[i := current_point]) g'))"

definition barnsley_points ::
  "transformation list \<Rightarrow> int \<Rightarrow> real source \<Rightarrow> error + (point list \<times> real source)" where
  "barnsley_points ts num_points g =
     (if num_points < 0 then Inl ValueError
      else
        let points = replicate (nat num_points) (0, 0);
            current_point = (0, 0)
        in if num_points = 0 then Inl IndexError
           else barnsley_loop ts [1..<nat num_points] current_point
                  (points[0 := current_point]) g)"

definition animate_barnsley :: "real source \<Rightarrow> error + (point list \<times> real source)" where
  "animate_barnsley g = barnsley_points transformations 200000 g"

section \<open>Koch curve\<close>

text \<open>
  \<open>koch_curve_points\<close> (lines 134 to 163). The depth is a Python integer; the
  recursion stops only at \<open>depth == 0\<close>, so the function is partial: \<open>None\<close> is a
  call that never reaches the base case. The slice \<open>[:-1]\<close> is \<open>butlast\<close>.
\<close>

partial_function (option) koch_curve_points :: "point \<Rightarrow> point \<Rightarrow> int \<Rightarrow> point list option" where
  "koch_curve_points p1 p2 depth =
     (if depth = 0 then Some [p1, p2]
      else
        let base = vsub p2 p1;
            pA = vadd p1 (vdiv base 3);
            pB = vadd p1 (vdiv (vscale 2 base) 3);
            rot = ((1 / 2, - sqrt 3 / 2), (sqrt 3 / 2, 1 / 2));
            peak = vadd pA (mat_dot rot (vdiv base 3))
        in Option.bind (koch_curve_points p1 pA (depth - 1)) (\<lambda>s1.
           Option.bind (koch_curve_points pA peak (depth - 1)) (\<lambda>s2.
           Option.bind (koch_curve_points peak pB (depth - 1)) (\<lambda>s3.
           Option.bind (koch_curve_points pB p2 (depth - 1)) (\<lambda>s4.
             Some (butlast s1 @ butlast s2 @ butlast s3 @ s4))))))"

section \<open>Sierpinski triangle\<close>

text \<open>
  The generation part of \<open>animate_sierpinski\<close> (lines 227 to 245). The vertices and
  the number of points, local constants of the script, are parameters here;
  \<open>animate_sierpinski\<close> below fixes them to the script's values. The start point is
  a copy of the first vertex; \<open>sierpinski_loop\<close> is the loop over
  \<open>range(1, total_points)\<close>.
\<close>

fun sierpinski_loop ::
  "point list \<Rightarrow> nat list \<Rightarrow> point \<Rightarrow> point list \<Rightarrow> nat source
     \<Rightarrow> error + (point list \<times> nat source)" where
  "sierpinski_loop vertices [] current points_sier g = Inr (points_sier, g)"
| "sierpinski_loop vertices (i # rest) current points_sier g =
     (case random_choice vertices g of
        Inl e \<Rightarrow> Inl e
      | Inr (chosen, g') \<Rightarrow>
          (let current = vdiv (vadd current chosen) 2
           in sierpinski_loop vertices rest current (points_sier[i := current]) g'))"

definition sierpinski_points ::
  "point list \<Rightarrow> int \<Rightarrow> nat source \<Rightarrow> error + (point list \<times> nat source)" where
  "sierpinski_points vertices total_points g =
     (if vertices = [] then Inl IndexError
      else
        let current = vertices ! 0
        in if total_points < 0 then Inl ValueError
           else
             let points_sier = replicate (nat total_points) (0, 0)
             in if total_points = 0 then Inl IndexError
                else sierpinski_loop vertices [1..<nat total_points] current
                       (points_sier[0 := current]) g)"

definition animate_sierpinski :: "nat source \<Rightarrow> error + (point list \<times> nat source)" where
  "animate_sierpinski g = sierpinski_points [(0, 0), (2, 4), (4, 0)] 30000 g"

section \<open>Float64 arithmetic\<close>

text \<open>
  A float64 operation returns the exact result rounded to the nearest number with a
  significand of 53 bits, a tie going to the even significand. \<open>fl64\<close> is this
  rounding: for \<open>x\<close> in the binade \<open>2 ^ e \<le> |x| < 2 ^ (e + 1)\<close> the representable
  numbers are the multiples of \<open>2 ^ (e - 52)\<close>. The exponent is not bounded here, so
  overflow to infinity and the subnormal numbers are not modelled; the values of the
  script are far from both.
\<close>

definition round_half_even :: "real \<Rightarrow> int" where
  "round_half_even y =
     (let f = \<lfloor>y\<rfloor>; d = y - of_int f
      in if d < 1 / 2 then f
         else if 1 / 2 < d then f + 1
         else if even f then f else f + 1)"

definition fl64 :: "real \<Rightarrow> real" where
  "fl64 x =
     (if x = 0 then 0
      else
        let q = 2 powr of_int (\<lfloor>log 2 \<bar>x\<bar>\<rfloor> - 52)
        in of_int (round_half_even (x / q)) * q)"

definition fl64_point :: "point \<Rightarrow> point" where
  "fl64_point p = (fl64 (fst p), fl64 (snd p))"



section \<open>Notions of the specification\<close>

text \<open>
  The selection rule in the specification's words, to be compared with
  \<open>choose_transformation\<close>: scan the table in order, accumulate the weights, take the
  first transformation whose cumulative weight reaches the draw, and the last one of
  the table when none does.
\<close>

definition cumulative_weight :: "transformation list \<Rightarrow> nat \<Rightarrow> real" where
  "cumulative_weight ts i = sum_list (map prob (take (Suc i) ts))"

definition weighted_selection :: "real \<Rightarrow> transformation list \<Rightarrow> transformation" where
  "weighted_selection r ts =
     (case find (\<lambda>i. r \<le> cumulative_weight ts i) [0..<length ts] of
        Some i \<Rightarrow> ts ! i
      | None \<Rightarrow> last ts)"

text \<open>
  A valid table in the specification's sense: not empty, every weight positive, and the
  weights summing to 1 up to \<open>1e-6\<close>.
\<close>

definition valid_table :: "transformation list \<Rightarrow> bool" where
  "valid_table ts \<longleftrightarrow>
     ts \<noteq> [] \<and> list_all (\<lambda>t. 0 < prob t) ts \<and> \<bar>sum_list (map prob ts) - 1\<bar> \<le> 1 / 10 ^ 6"


text \<open>
  The float64 numbers (of unbounded exponent): an integer of magnitude below \<open>2 ^ 53\<close>
  times a power of 2.
\<close>

definition is_f64 :: "real \<Rightarrow> bool" where
  "is_f64 x \<longleftrightarrow> (\<exists>m j :: int. \<bar>m\<bar> < 2 ^ 53 \<and> x = of_int m * 2 powr of_int j)"




section \<open>Koch curve: size and endpoints\<close>

lemma koch_depth_0: "koch_curve_points p1 p2 0 = Some [p1, p2]"
  by (simp add: koch_curve_points.simps)

lemma koch_depth_1_general:
  "koch_curve_points p1 p2 1 =
     Some [p1,
           vadd p1 (vdiv (vsub p2 p1) 3),
           vadd (vadd p1 (vdiv (vsub p2 p1) 3))
             (mat_dot ((1 / 2, - sqrt 3 / 2), (sqrt 3 / 2, 1 / 2)) (vdiv (vsub p2 p1) 3)),
           vadd p1 (vdiv (vscale 2 (vsub p2 p1)) 3),
           p2]"
  by (simp add: koch_curve_points.simps [of _ _ 1] koch_depth_0 Let_def)

lemma koch_depth_1_segment:
  "koch_curve_points (0, 0) (3, 0) 1 =
     Some [(0, 0), (1, 0), (3 / 2, sqrt 3 / 2), (2, 0), (3, 0)]"
  by (simp add: koch_depth_1_general vadd_def vsub_def vdiv_def vscale_def mat_dot_def)

text \<open>
  Every level replaces a segment by four, so a non-negative depth \<open>n\<close> gives
  \<open>4 ^ n\<close> segments. The induction is on the depth, for all endpoints at once, since
  the recursive calls run on other endpoints.
\<close>

lemma koch_nat:
  "\<exists>pts. koch_curve_points p1 p2 (int n) = Some pts \<and> length pts = 4 ^ n + 1
         \<and> hd pts = p1 \<and> last pts = p2"
proof (induction n arbitrary: p1 p2)
  case 0
  show ?case by (simp add: koch_depth_0)
next
  case (Suc n)
  define pA where "pA = vadd p1 (vdiv (vsub p2 p1) 3)"
  define pB where "pB = vadd p1 (vdiv (vscale 2 (vsub p2 p1)) 3)"
  define peak where
    "peak = vadd pA (mat_dot ((1 / 2, - sqrt 3 / 2), (sqrt 3 / 2, 1 / 2)) (vdiv (vsub p2 p1) 3))"
  obtain s1 where s1: "koch_curve_points p1 pA (int n) = Some s1" "length s1 = 4 ^ n + 1"
    "hd s1 = p1" using Suc.IH by blast
  obtain s2 where s2: "koch_curve_points pA peak (int n) = Some s2" "length s2 = 4 ^ n + 1"
    using Suc.IH by blast
  obtain s3 where s3: "koch_curve_points peak pB (int n) = Some s3" "length s3 = 4 ^ n + 1"
    using Suc.IH by blast
  obtain s4 where s4: "koch_curve_points pB p2 (int n) = Some s4" "length s4 = 4 ^ n + 1"
    "last s4 = p2" using Suc.IH by blast
  have eq: "koch_curve_points p1 p2 (int (Suc n)) = Some (butlast s1 @ butlast s2 @ butlast s3 @ s4)"
    using s1(1) s2(1) s3(1) s4(1)
    by (subst koch_curve_points.simps) (simp add: Let_def pA_def pB_def peak_def)
  have ne1: "butlast s1 \<noteq> []" using s1(2) by (cases s1) (auto split: if_splits)
  have ne4: "s4 \<noteq> []" using s4(2) by auto
  have "hd (butlast s1 @ butlast s2 @ butlast s3 @ s4) = p1"
    using ne1 s1(3) by (cases s1) (auto split: if_splits)
  moreover have "last (butlast s1 @ butlast s2 @ butlast s3 @ s4) = p2"
    using ne4 s4(3) by simp
  moreover have "length (butlast s1 @ butlast s2 @ butlast s3 @ s4) = 4 ^ Suc n + 1"
    using s1(2) s2(2) s3(2) s4(2) by simp
  ultimately show ?case using eq by simp
qed

text \<open>
  A call that returns has a non-negative depth: below 0 the depth only moves away from
  the base case.
\<close>

lemma koch_some_nonneg: "koch_curve_points p1 p2 depth = Some pts \<Longrightarrow> 0 \<le> depth"
proof (erule koch_curve_points.raw_induct [where P = "\<lambda>_ _ d _. 0 \<le> d", rotated])
  fix f :: "point \<Rightarrow> point \<Rightarrow> int \<Rightarrow> point list option" and q1 q2 d ys
  assume IH: "\<And>a b k zs. f a b k = Some zs \<Longrightarrow> 0 \<le> k"
  assume body: "(if d = 0 then Some [q1, q2]
      else
        let base = vsub q2 q1;
            pA = vadd q1 (vdiv base 3);
            pB = vadd q1 (vdiv (vscale 2 base) 3);
            rot = ((1 / 2, - sqrt 3 / 2), (sqrt 3 / 2, 1 / 2));
            peak = vadd pA (mat_dot rot (vdiv base 3))
        in Option.bind (f q1 pA (d - 1)) (\<lambda>s1.
           Option.bind (f pA peak (d - 1)) (\<lambda>s2.
           Option.bind (f peak pB (d - 1)) (\<lambda>s3.
           Option.bind (f pB q2 (d - 1)) (\<lambda>s4.
             Some (butlast s1 @ butlast s2 @ butlast s3 @ s4)))))) = Some ys"
  show "0 \<le> d"
  proof (cases "d = 0")
    case True
    then show ?thesis by simp
  next
    case False
    with body obtain s1 where "f q1 (vadd q1 (vdiv (vsub q2 q1) 3)) (d - 1) = Some s1"
      by (auto simp: Let_def Option.bind_eq_Some_conv)
    then have "0 \<le> d - 1" by (rule IH)
    then show ?thesis by simp
  qed
qed

lemma koch_negative_depth: "depth < 0 \<Longrightarrow> koch_curve_points p1 p2 depth = None"
  using koch_some_nonneg [of p1 p2 depth] by (cases "koch_curve_points p1 p2 depth") auto

text \<open>
  C1 (as amended). For all endpoints \<open>p1\<close>, \<open>p2\<close> the subdivider returns exactly
  \<open>[p1, p2]\<close> at depth 0, and at every depth \<open>d \<ge> 0\<close> it returns a sequence of
  exactly \<open>4 ^ d + 1\<close> points whose first point is \<open>p1\<close> and whose last point is
  \<open>p2\<close>.
\<close>

theorem koch_size_endpoints:
  "koch_curve_points p1 p2 0 = Some [p1, p2] \<and>
   (0 \<le> depth \<longrightarrow>
      (\<exists>pts. koch_curve_points p1 p2 depth = Some pts \<and> length pts = 4 ^ nat depth + 1
         \<and> hd pts = p1 \<and> last pts = p2))"
  using koch_nat [of p1 p2 "nat depth"] by (auto simp: koch_depth_0)

theorem koch_size_endpoints_witness:
  "\<exists>pts. koch_curve_points (0, 0) (3, 0) 2 = Some pts \<and> length pts = 17
      \<and> hd pts = (0, 0) \<and> last pts = (3, 0)"
  using koch_size_endpoints [of "(0, 0)" "(3, 0)" 2] by simp

text \<open>
  The count \<open>3 ^ d + 1\<close> of the specification fails at depth 1, where the curve has the
  five points of its generator.
\<close>

theorem koch_three_power_counterexample:
  "map_option length (koch_curve_points (0, 0) (3, 0) 1) \<noteq> Some (3 ^ nat 1 + 1)"
  by (simp add: koch_depth_1_segment)

text \<open>
  C6. The subdivision of the segment from \<open>(0, 0)\<close> to \<open>(3, 0)\<close> at depth 1 is
  \<open>(0, 0)\<close>, \<open>(1, 0)\<close>, \<open>(3/2, sqrt 3 / 2)\<close>, \<open>(2, 0)\<close>, \<open>(3, 0)\<close>; and for any segment
  the depth 1 curve is \<open>p1\<close>, the point at 1/3 of the base, that point plus the third
  of the base rotated by +60 degrees, the point at 2/3 of the base, \<open>p2\<close>.
\<close>

theorem koch_depth_1:
  "koch_curve_points (0, 0) (3, 0) 1 =
     Some [(0, 0), (1, 0), (3 / 2, sqrt 3 / 2), (2, 0), (3, 0)] \<and>
   koch_curve_points p1 p2 1 =
     Some [p1,
           vadd p1 (vscale (1 / 3) (vsub p2 p1)),
           vadd (vadd p1 (vscale (1 / 3) (vsub p2 p1)))
             (mat_dot ((cos (pi / 3), - sin (pi / 3)), (sin (pi / 3), cos (pi / 3)))
                (vscale (1 / 3) (vsub p2 p1))),
           vadd p1 (vscale (2 / 3) (vsub p2 p1)),
           p2]"
  by (simp add: koch_depth_1_segment koch_depth_1_general cos_60 sin_60
      vadd_def vsub_def vdiv_def vscale_def mat_dot_def)

section \<open>Weighted selection\<close>

lemma find_map_list: "find P (map f xs) = map_option f (find (\<lambda>x. P (f x)) xs)"
  by (induction xs) simp_all

text \<open>
  The loop of \<open>choose_transformation\<close>, started with the sum \<open>acc\<close>, returns the entry
  at the first index whose cumulative weight on top of \<open>acc\<close> reaches the draw.
\<close>

lemma choose_loop_find:
  "choose_loop r acc ts =
     map_option (\<lambda>i. ts ! i) (find (\<lambda>i. r \<le> acc + cumulative_weight ts i) [0..<length ts])"
proof (induction ts arbitrary: acc)
  case Nil
  show ?case by simp
next
  case (Cons t ts)
  have upt: "[0..<length (t # ts)] = 0 # map Suc [0..<length ts]"
    by (simp add: upt_conv_Cons map_Suc_upt del: upt_Suc)
  show ?case
    unfolding upt
    by (simp add: Cons.IH find_map_list cumulative_weight_def option.map_comp add.assoc
        Let_def comp_def)
qed

lemma choose_loop_mem: "choose_loop r acc ts = Some t \<Longrightarrow> t \<in> set ts"
  by (induction ts arbitrary: acc) (auto simp: Let_def split: if_splits)

lemma choose_loop_none:
  "list_all (\<lambda>t. 0 \<le> prob t) ts \<Longrightarrow> acc + sum_list (map prob ts) < r
     \<Longrightarrow> choose_loop r acc ts = None"
proof (induction ts arbitrary: acc)
  case Nil
  show ?case by simp
next
  case (Cons t ts)
  have "0 \<le> sum_list (map prob ts)" using Cons.prems(1)
    by (intro sum_list_nonneg) (auto simp: list_all_iff)
  with Cons.prems(2) have "\<not> r \<le> acc + prob t" by simp
  moreover have "choose_loop r (acc + prob t) ts = None"
    using Cons.prems by (intro Cons.IH) (simp_all add: add.assoc)
  ultimately show ?case by (simp add: Let_def)
qed

lemma choose_total:
  "ts \<noteq> [] \<Longrightarrow> \<exists>t. choose_transformation ts g = Inr (t, source_drop 1 g) \<and> t \<in> set ts"
  by (auto simp: choose_transformation_def random_random_def split: option.splits
      dest: choose_loop_mem)

text \<open>
  C2. \<open>choose_transformation\<close> takes one draw \<open>r\<close> from the source and returns the
  transformation the specification's rule selects for \<open>r\<close>: the first one, in table
  order, whose cumulative weight is at least \<open>r\<close>, and the last one of the table when
  no cumulative weight reaches \<open>r\<close>. In particular, on a table of non-negative weights
  a draw above the total weight returns the last transformation, not an error.
\<close>

theorem choose_transformation_weighted:
  "ts \<noteq> [] \<Longrightarrow>
     choose_transformation ts g = Inr (weighted_selection (g 0) ts, source_drop 1 g) \<and>
     (list_all (\<lambda>t. 0 \<le> prob t) ts \<and> sum_list (map prob ts) < g 0 \<longrightarrow>
        choose_transformation ts g = Inr (last ts, source_drop 1 g))"
proof (intro conjI impI)
  assume ne: "ts \<noteq> []"
  show "choose_transformation ts g = Inr (weighted_selection (g 0) ts, source_drop 1 g)"
    using ne
    by (simp add: choose_transformation_def random_random_def choose_loop_find
        weighted_selection_def split: option.splits)
  assume "list_all (\<lambda>t. 0 \<le> prob t) ts \<and> sum_list (map prob ts) < g 0"
  then have "choose_loop (g 0) 0 ts = None"
    by (intro choose_loop_none) simp_all
  then show "choose_transformation ts g = Inr (last ts, source_drop 1 g)"
    using ne by (simp add: choose_transformation_def random_random_def)
qed

theorem choose_transformation_weighted_witness:
  "choose_transformation transformations (const_source (1 / 2))
     = Inr (transformations ! 1, source_drop 1 (const_source (1 / 2))) \<and>
   choose_transformation transformations (const_source 2)
     = Inr (transformations ! 3, source_drop 1 (const_source 2))"
proof -
  have ne: "transformations \<noteq> []" by (simp add: transformations_def)
  have sel: "weighted_selection (const_source (1 / 2) 0) transformations = transformations ! 1"
    by (simp add: weighted_selection_def cumulative_weight_def transformations_def
        const_source_def)
  have fb: "list_all (\<lambda>t. 0 \<le> prob t) transformations \<and>
      sum_list (map prob transformations) < const_source 2 0"
    by (simp add: transformations_def const_source_def)
  have last: "last transformations = transformations ! 3"
    by (simp add: transformations_def)
  have "choose_transformation transformations (const_source (1 / 2))
      = Inr (transformations ! 1, source_drop 1 (const_source (1 / 2)))"
    using choose_transformation_weighted [OF ne, of "const_source (1 / 2)"] sel by simp
  moreover have "choose_transformation transformations (const_source 2)
      = Inr (last transformations, source_drop 1 (const_source 2))"
    using choose_transformation_weighted [OF ne, of "const_source 2"] fb by blast
  ultimately show ?thesis by (simp only: last)
qed

text \<open>
  C10. On every non-empty list \<open>choose_transformation\<close> returns, for any draw and
  whatever the weights are, an element of the list, and takes one draw from the source;
  it raises nothing.
\<close>

theorem choose_transformation_total:
  "ts \<noteq> [] \<Longrightarrow> \<exists>t. choose_transformation ts g = Inr (t, source_drop 1 g) \<and> t \<in> set ts"
  by (rule choose_total)

theorem choose_transformation_total_witness:
  "\<exists>t. choose_transformation [\<lparr>matrix = ((1, 0), (0, 1)), offset = (0, 0), prob = 1 / 4\<rparr>]
          (const_source (1 / 2))
        = Inr (t, source_drop 1 (const_source (1 / 2)))
      \<and> t \<in> set [\<lparr>matrix = ((1, 0), (0, 1)), offset = (0, 0), prob = 1 / 4\<rparr>]"
  using choose_transformation_total
    [of "[\<lparr>matrix = ((1, 0), (0, 1)), offset = (0, 0), prob = 1 / 4\<rparr>]" "const_source (1 / 2)"]
  by simp

section \<open>The Barnsley sampler\<close>

lemma source_drop_0: "source_drop 0 g = g"
  by (simp add: source_drop_def)

lemma source_drop_drop: "source_drop m (source_drop n g) = source_drop (n + m) g"
  by (simp add: source_drop_def add.assoc)

text \<open>
  The loop over \<open>[a..<b]\<close>: it succeeds, takes \<open>b - a\<close> draws, leaves the entries
  below \<open>a\<close> alone, and stores at each index the image of the point before it under the
  transformation chosen at that step. The induction is on the number of iterations, for
  all states of the loop.
\<close>

lemma barnsley_loop_upt:
  assumes "ts \<noteq> []" and "b \<le> length pts"
  shows "\<exists>pts'. barnsley_loop ts [a..<b] cur pts g = Inr (pts', source_drop (b - a) g)
           \<and> length pts' = length pts
           \<and> (\<forall>j<a. pts' ! j = pts ! j)
           \<and> (\<forall>i. a \<le> i \<and> i < b \<longrightarrow>
                 (\<exists>t. choose_transformation ts (source_drop (i - a) g)
                        = Inr (t, source_drop (Suc (i - a)) g)
                    \<and> pts' ! i = apply_transformation (if i = a then cur else pts' ! (i - 1)) t))"
  using assms(2)
proof (induction "b - a" arbitrary: a cur pts g)
  case 0
  then show ?case by (auto simp: source_drop_0)
next
  case (Suc n)
  then have ab: "a < b" and n: "n = b - Suc a" by simp_all
  obtain t where t: "choose_transformation ts g = Inr (t, source_drop 1 g)"
    using choose_total [OF assms(1)] by blast
  define cur' where "cur' = apply_transformation cur t"
  define pts1 where "pts1 = pts[a := cur']"
  have len1: "b \<le> length pts1" using Suc.prems by (simp add: pts1_def)
  obtain pts' where run: "barnsley_loop ts [Suc a..<b] cur' pts1 (source_drop 1 g)
        = Inr (pts', source_drop (b - Suc a) (source_drop 1 g))"
    and len: "length pts' = length pts1"
    and old: "\<forall>j<Suc a. pts' ! j = pts1 ! j"
    and new: "\<forall>i. Suc a \<le> i \<and> i < b \<longrightarrow>
                 (\<exists>t. choose_transformation ts (source_drop (i - Suc a) (source_drop 1 g))
                        = Inr (t, source_drop (Suc (i - Suc a)) (source_drop 1 g))
                    \<and> pts' ! i = apply_transformation (if i = Suc a then cur' else pts' ! (i - 1)) t)"
    using Suc.hyps(1) [OF n len1, of cur' "source_drop 1 g"] by blast
  have at_a: "pts' ! a = cur'"
    using old ab Suc.prems by (simp add: pts1_def)
  have "Suc (b - Suc a) = b - a" using ab by simp
  then have "barnsley_loop ts [a..<b] cur pts g = Inr (pts', source_drop (b - a) g)"
    using ab t run by (simp add: upt_conv_Cons cur'_def pts1_def source_drop_drop)
  moreover have "length pts' = length pts" using len by (simp add: pts1_def)
  moreover have "\<forall>j<a. pts' ! j = pts ! j" using old by (simp add: pts1_def)
  moreover have "\<exists>t. choose_transformation ts (source_drop (i - a) g)
                        = Inr (t, source_drop (Suc (i - a)) g)
                    \<and> pts' ! i = apply_transformation (if i = a then cur else pts' ! (i - 1)) t"
    if i: "a \<le> i" "i < b" for i
  proof (cases "i = a")
    case True
    then show ?thesis using t at_a by (simp add: source_drop_0 cur'_def)
  next
    case False
    with i have "Suc a \<le> i" by simp
    with new i(2) obtain t' where
      "choose_transformation ts (source_drop (i - Suc a) (source_drop 1 g))
                        = Inr (t', source_drop (Suc (i - Suc a)) (source_drop 1 g))"
      "pts' ! i = apply_transformation (if i = Suc a then cur' else pts' ! (i - 1)) t'"
      by blast
    moreover have "1 + (i - Suc a) = i - a" using \<open>Suc a \<le> i\<close> by simp
    ultimately show ?thesis using False at_a \<open>Suc a \<le> i\<close>
      by (auto simp: source_drop_drop)
  qed
  ultimately show ?case by blast
qed

lemma barnsley_points_run:
  assumes "ts \<noteq> []" and "1 \<le> n"
  shows "\<exists>pts. barnsley_points ts n g = Inr (pts, source_drop (nat n - 1) g)
           \<and> length pts = nat n \<and> pts ! 0 = (0, 0)
           \<and> (\<forall>i. 1 \<le> i \<and> i < nat n \<longrightarrow>
                 (\<exists>t. choose_transformation ts (source_drop (i - 1) g) = Inr (t, source_drop i g)
                    \<and> pts ! i = apply_transformation (pts ! (i - 1)) t))"
proof -
  define pts0 :: "point list" where "pts0 = (replicate (nat n) (0, 0)) [0 := (0, 0)]"
  have len0: "nat n \<le> length pts0" by (simp add: pts0_def)
  obtain pts where run: "barnsley_loop ts [1..<nat n] (0, 0) pts0 g
        = Inr (pts, source_drop (nat n - 1) g)"
    and len: "length pts = length pts0"
    and old: "\<forall>j<1. pts ! j = pts0 ! j"
    and new: "\<forall>i. 1 \<le> i \<and> i < nat n \<longrightarrow>
                 (\<exists>t. choose_transformation ts (source_drop (i - 1) g)
                        = Inr (t, source_drop (Suc (i - 1)) g)
                    \<and> pts ! i = apply_transformation (if i = 1 then (0, 0) else pts ! (i - 1)) t)"
    using barnsley_loop_upt [OF assms(1) len0, of 1 "(0, 0)" g] by blast
  have p0: "pts ! 0 = (0, 0)" using old assms(2) by (simp add: pts0_def)
  have "barnsley_points ts n g = Inr (pts, source_drop (nat n - 1) g)"
    using assms(2) run by (simp add: barnsley_points_def pts0_def)
  moreover have "length pts = nat n" using len by (simp add: pts0_def)
  moreover have "\<exists>t. choose_transformation ts (source_drop (i - 1) g) = Inr (t, source_drop i g)
                    \<and> pts ! i = apply_transformation (pts ! (i - 1)) t"
    if "1 \<le> i" "i < nat n" for i
    using new that p0 by (cases "i = 1") auto
  ultimately show ?thesis using p0 by blast
qed

text \<open>
  C3. For every non-empty table, so for every valid one, and every count \<open>n \<ge> 1\<close> the
  sampler returns exactly \<open>n\<close> points; the point at index 0 is \<open>(0, 0)\<close>, and the
  point at every index \<open>i\<close> from 1 on is the image \<open>M p + offset\<close> of the point
  \<open>p\<close> at index \<open>i - 1\<close> under the transformation that \<open>choose_transformation\<close>
  draws at step \<open>i\<close>, from the source as the \<open>i - 1\<close> earlier draws left it.
\<close>

theorem barnsley_points_sequence:
  "ts \<noteq> [] \<Longrightarrow> 1 \<le> n \<Longrightarrow>
     \<exists>pts. barnsley_points ts n g = Inr (pts, source_drop (nat n - 1) g)
       \<and> length pts = nat n \<and> pts ! 0 = (0, 0)
       \<and> (\<forall>i. 1 \<le> i \<and> i < nat n \<longrightarrow>
             (\<exists>t. choose_transformation ts (source_drop (i - 1) g) = Inr (t, source_drop i g)
                \<and> pts ! i = apply_transformation (pts ! (i - 1)) t))"
  by (rule barnsley_points_run)

lemma choose_half:
  "choose_transformation transformations (source_drop k (const_source (1 / 2)))
     = Inr (transformations ! 1, source_drop (Suc k) (const_source (1 / 2)))"
  by (simp add: choose_transformation_def random_random_def transformations_def
      source_drop_def const_source_def Let_def)

theorem barnsley_points_sequence_witness:
  "\<exists>pts. barnsley_points transformations 3 (const_source (1 / 2))
        = Inr (pts, source_drop 2 (const_source (1 / 2)))
      \<and> length pts = 3 \<and> pts ! 0 = (0, 0) \<and> pts ! 1 = (0, 16 / 10)
      \<and> pts ! 2 = (64 / 1000, 296 / 100)"
proof -
  have ne: "transformations \<noteq> []" by (simp add: transformations_def)
  obtain pts where run: "barnsley_points transformations 3 (const_source (1 / 2))
        = Inr (pts, source_drop (nat 3 - 1) (const_source (1 / 2)))"
    and len: "length pts = nat 3" and p0: "pts ! 0 = (0, 0)"
    and step: "\<forall>i. 1 \<le> i \<and> i < nat 3 \<longrightarrow>
             (\<exists>t. choose_transformation transformations (source_drop (i - 1) (const_source (1 / 2)))
                    = Inr (t, source_drop i (const_source (1 / 2)))
                \<and> pts ! i = apply_transformation (pts ! (i - 1)) t)"
    using barnsley_points_sequence [OF ne, of 3 "const_source (1 / 2)"] by auto
  have p1: "pts ! 1 = apply_transformation (pts ! 0) (transformations ! 1)"
    using step [rule_format, of 1] choose_half [of 0] by auto
  have p2: "pts ! 2 = apply_transformation (pts ! 1) (transformations ! 1)"
    using step [rule_format, of 2] choose_half [of 1] by auto
  have v1: "pts ! 1 = (0, 16 / 10)"
    using p1 p0 by (simp add: apply_transformation_def transformations_def vadd_def mat_dot_def)
  have v2: "pts ! 2 = (64 / 1000, 296 / 100)"
    using p2 v1 by (simp add: apply_transformation_def transformations_def vadd_def mat_dot_def)
  show ?thesis using run len p0 v1 v2 by simp
qed

section \<open>The Sierpinski sampler\<close>

lemma random_choice_total:
  "vertices \<noteq> [] \<Longrightarrow>
     \<exists>chosen. random_choice vertices g = Inr (chosen, source_drop 1 g) \<and> chosen \<in> set vertices"
  by (simp add: random_choice_def)

text \<open>
  The loop over \<open>[a..<b]\<close>, as for the fern: it succeeds, takes \<open>b - a\<close> draws, and
  stores at each index the midpoint of the point before it and the chosen vertex.
\<close>

lemma sierpinski_loop_upt:
  assumes "vertices \<noteq> []" and "b \<le> length pts"
  shows "\<exists>pts'. sierpinski_loop vertices [a..<b] cur pts g = Inr (pts', source_drop (b - a) g)
           \<and> length pts' = length pts
           \<and> (\<forall>j<a. pts' ! j = pts ! j)
           \<and> (\<forall>i. a \<le> i \<and> i < b \<longrightarrow>
                 (\<exists>chosen. random_choice vertices (source_drop (i - a) g)
                        = Inr (chosen, source_drop (Suc (i - a)) g)
                    \<and> chosen \<in> set vertices
                    \<and> pts' ! i = vdiv (vadd (if i = a then cur else pts' ! (i - 1)) chosen) 2))"
  using assms(2)
proof (induction "b - a" arbitrary: a cur pts g)
  case 0
  then show ?case by (auto simp: source_drop_0)
next
  case (Suc n)
  then have ab: "a < b" and n: "n = b - Suc a" by simp_all
  obtain c where c: "random_choice vertices g = Inr (c, source_drop 1 g)" "c \<in> set vertices"
    using random_choice_total [OF assms(1)] by blast
  define cur' where "cur' = vdiv (vadd cur c) 2"
  define pts1 where "pts1 = pts[a := cur']"
  have len1: "b \<le> length pts1" using Suc.prems by (simp add: pts1_def)
  obtain pts' where run: "sierpinski_loop vertices [Suc a..<b] cur' pts1 (source_drop 1 g)
        = Inr (pts', source_drop (b - Suc a) (source_drop 1 g))"
    and len: "length pts' = length pts1"
    and old: "\<forall>j<Suc a. pts' ! j = pts1 ! j"
    and new: "\<forall>i. Suc a \<le> i \<and> i < b \<longrightarrow>
                 (\<exists>chosen. random_choice vertices (source_drop (i - Suc a) (source_drop 1 g))
                        = Inr (chosen, source_drop (Suc (i - Suc a)) (source_drop 1 g))
                    \<and> chosen \<in> set vertices
                    \<and> pts' ! i = vdiv (vadd (if i = Suc a then cur' else pts' ! (i - 1)) chosen) 2)"
    using Suc.hyps(1) [OF n len1, of cur' "source_drop 1 g"] by blast
  have at_a: "pts' ! a = cur'"
    using old ab Suc.prems by (simp add: pts1_def)
  have "Suc (b - Suc a) = b - a" using ab by simp
  then have "sierpinski_loop vertices [a..<b] cur pts g = Inr (pts', source_drop (b - a) g)"
    using ab c(1) run by (simp add: upt_conv_Cons cur'_def pts1_def source_drop_drop)
  moreover have "length pts' = length pts" using len by (simp add: pts1_def)
  moreover have "\<forall>j<a. pts' ! j = pts ! j" using old by (simp add: pts1_def)
  moreover have "\<exists>chosen. random_choice vertices (source_drop (i - a) g)
                        = Inr (chosen, source_drop (Suc (i - a)) g)
                    \<and> chosen \<in> set vertices
                    \<and> pts' ! i = vdiv (vadd (if i = a then cur else pts' ! (i - 1)) chosen) 2"
    if i: "a \<le> i" "i < b" for i
  proof (cases "i = a")
    case True
    then show ?thesis using c at_a by (simp add: source_drop_0 cur'_def)
  next
    case False
    with i have "Suc a \<le> i" by simp
    with new i(2) obtain c' where
      "random_choice vertices (source_drop (i - Suc a) (source_drop 1 g))
                        = Inr (c', source_drop (Suc (i - Suc a)) (source_drop 1 g))"
      "c' \<in> set vertices"
      "pts' ! i = vdiv (vadd (if i = Suc a then cur' else pts' ! (i - 1)) c') 2"
      by blast
    moreover have "1 + (i - Suc a) = i - a" using \<open>Suc a \<le> i\<close> by simp
    ultimately show ?thesis using False at_a \<open>Suc a \<le> i\<close>
      by (auto simp: source_drop_drop)
  qed
  ultimately show ?case by blast
qed

lemma sierpinski_points_run:
  assumes "vertices \<noteq> []" and "1 \<le> n"
  shows "\<exists>pts. sierpinski_points vertices n g = Inr (pts, source_drop (nat n - 1) g)
           \<and> length pts = nat n \<and> pts ! 0 = vertices ! 0
           \<and> (\<forall>i. 1 \<le> i \<and> i < nat n \<longrightarrow>
                 (\<exists>chosen. random_choice vertices (source_drop (i - 1) g)
                        = Inr (chosen, source_drop i g)
                    \<and> chosen \<in> set vertices
                    \<and> pts ! i = vdiv (vadd (pts ! (i - 1)) chosen) 2))"
proof -
  define pts0 :: "point list" where "pts0 = (replicate (nat n) (0, 0)) [0 := vertices ! 0]"
  have len0: "nat n \<le> length pts0" by (simp add: pts0_def)
  obtain pts where run: "sierpinski_loop vertices [1..<nat n] (vertices ! 0) pts0 g
        = Inr (pts, source_drop (nat n - 1) g)"
    and len: "length pts = length pts0"
    and old: "\<forall>j<1. pts ! j = pts0 ! j"
    and new: "\<forall>i. 1 \<le> i \<and> i < nat n \<longrightarrow>
                 (\<exists>chosen. random_choice vertices (source_drop (i - 1) g)
                        = Inr (chosen, source_drop (Suc (i - 1)) g)
                    \<and> chosen \<in> set vertices
                    \<and> pts ! i = vdiv (vadd (if i = 1 then vertices ! 0 else pts ! (i - 1)) chosen) 2)"
    using sierpinski_loop_upt [OF assms(1) len0, of 1 "vertices ! 0" g] by blast
  have p0: "pts ! 0 = vertices ! 0" using old assms(2) by (simp add: pts0_def)
  have "sierpinski_points vertices n g = Inr (pts, source_drop (nat n - 1) g)"
    using assms run by (simp add: sierpinski_points_def pts0_def)
  moreover have "length pts = nat n" using len by (simp add: pts0_def)
  moreover have "\<exists>chosen. random_choice vertices (source_drop (i - 1) g)
                        = Inr (chosen, source_drop i g)
                    \<and> chosen \<in> set vertices
                    \<and> pts ! i = vdiv (vadd (pts ! (i - 1)) chosen) 2"
    if "1 \<le> i" "i < nat n" for i
    using new that p0 by (cases "i = 1") auto
  ultimately show ?thesis using p0 by blast
qed

text \<open>
  C4. For every sequence of 3 vertices and every count \<open>n \<ge> 1\<close> the sampler returns
  exactly \<open>n\<close> points; the point at index 0 is \<open>vertices[0]\<close>, and the point at every
  later index is \<open>(current + chosen) / 2\<close>, where \<open>current\<close> is the point stored just
  before and \<open>chosen\<close> is the vertex that \<open>random.choice\<close> draws at that step.
\<close>

theorem sierpinski_points_sequence:
  "length vertices = 3 \<Longrightarrow> 1 \<le> n \<Longrightarrow>
     \<exists>pts. sierpinski_points vertices n g = Inr (pts, source_drop (nat n - 1) g)
       \<and> length pts = nat n \<and> pts ! 0 = vertices ! 0
       \<and> (\<forall>i. 1 \<le> i \<and> i < nat n \<longrightarrow>
             (\<exists>chosen. random_choice vertices (source_drop (i - 1) g)
                    = Inr (chosen, source_drop i g)
                \<and> chosen \<in> set vertices
                \<and> pts ! i = vdiv (vadd (pts ! (i - 1)) chosen) 2))"
  by (rule sierpinski_points_run) auto

lemma choice_one:
  "random_choice ([(0, 0), (2, 4), (4, 0)] :: point list) (source_drop k (const_source 1))
     = Inr ((2, 4), source_drop (Suc k) (const_source 1))"
  by (simp add: random_choice_def source_drop_def const_source_def)

theorem sierpinski_points_sequence_witness:
  "\<exists>pts. sierpinski_points [(0, 0), (2, 4), (4, 0)] 3 (const_source 1)
        = Inr (pts, source_drop 2 (const_source 1))
      \<and> length pts = 3 \<and> pts ! 0 = (0, 0) \<and> pts ! 1 = (1, 2) \<and> pts ! 2 = (3 / 2, 3)"
proof -
  have l3: "length ([(0, 0), (2, 4), (4, 0)] :: point list) = 3" by simp
  obtain pts where run: "sierpinski_points [(0, 0), (2, 4), (4, 0)] 3 (const_source 1)
        = Inr (pts, source_drop (nat 3 - 1) (const_source 1))"
    and len: "length pts = nat 3" and p0: "pts ! 0 = [(0, 0), (2, 4), (4, 0)] ! 0"
    and step: "\<forall>i. 1 \<le> i \<and> i < nat 3 \<longrightarrow>
             (\<exists>chosen. random_choice [(0, 0), (2, 4), (4, 0)] (source_drop (i - 1) (const_source 1))
                    = Inr (chosen, source_drop i (const_source 1))
                \<and> chosen \<in> set [(0, 0), (2, 4), (4, 0)]
                \<and> pts ! i = vdiv (vadd (pts ! (i - 1)) chosen) 2)"
    using sierpinski_points_sequence [OF l3, of 3 "const_source 1"] by auto
  have p1: "pts ! 1 = vdiv (vadd (pts ! 0) (2, 4)) 2"
    using step [rule_format, of 1] choice_one [of 0] by auto
  have p2: "pts ! 2 = vdiv (vadd (pts ! 1) (2, 4)) 2"
    using step [rule_format, of 2] choice_one [of 1] by auto
  have v1: "pts ! 1 = (1, 2)" using p1 p0 by (simp add: vdiv_def vadd_def)
  have v2: "pts ! 2 = (3 / 2, 3)" using p2 v1 by (simp add: vdiv_def vadd_def)
  show ?thesis using run len p0 v1 v2 by simp
qed

section \<open>The Sierpinski points stay in the triangle\<close>




lemma source_drop_const: "source_drop k (const_source x) = const_source x"
  by (simp add: source_drop_def const_source_def)




section \<open>Dependence on the draws\<close>

text \<open>
  The script takes no seed and never seeds the generator: it reads whatever state the
  global generator is in. What a call returns depends on that state only through the
  draws it takes. A selection depends on the source only through its first draw.
\<close>

lemma choose_transformation_draw:
  "g 0 = g' 0 \<Longrightarrow>
     choose_transformation ts g' =
       map_sum id (\<lambda>r. (fst r, source_drop 1 g')) (choose_transformation ts g)"
  by (simp add: choose_transformation_def random_random_def split: option.splits)

text \<open>
  Two runs of a loop from sources that agree on as many draws as the loop has iterations
  end alike, in the same points or in the same error. The induction is on the indices
  still to visit, for all states of the loop and both sources.
\<close>

lemma barnsley_loop_agree:
  "\<forall>i<length idxs. g i = g' i \<Longrightarrow>
     map_sum id fst (barnsley_loop ts idxs cur pts g)
       = map_sum id fst (barnsley_loop ts idxs cur pts g')"
proof (induction idxs arbitrary: cur pts g g')
  case Nil
  show ?case by simp
next
  case (Cons i idxs)
  from Cons.prems have g0: "g 0 = g' 0" by auto
  from Cons.prems have rest: "\<forall>i<length idxs. source_drop 1 g i = source_drop 1 g' i"
    by (auto simp: source_drop_def)
  show ?case
  proof (cases "ts = []")
    case True
    then show ?thesis by (simp add: choose_transformation_def random_random_def)
  next
    case False
    then obtain t where t: "choose_transformation ts g = Inr (t, source_drop 1 g)"
      using choose_total [of ts g] by blast
    then have t': "choose_transformation ts g' = Inr (t, source_drop 1 g')"
      using choose_transformation_draw [of g g' ts] g0 by simp
    show ?thesis using Cons.IH [OF rest] by (simp add: t t' Let_def)
  qed
qed

lemma random_choice_draw:
  "g 0 = g' 0 \<Longrightarrow>
     random_choice vs g' = map_sum id (\<lambda>r. (fst r, source_drop 1 g')) (random_choice vs g)"
  by (simp add: random_choice_def)

lemma sierpinski_loop_agree:
  "\<forall>i<length idxs. g i = g' i \<Longrightarrow>
     map_sum id fst (sierpinski_loop vs idxs cur pts g)
       = map_sum id fst (sierpinski_loop vs idxs cur pts g')"
proof (induction idxs arbitrary: cur pts g g')
  case Nil
  show ?case by simp
next
  case (Cons i idxs)
  from Cons.prems have g0: "g 0 = g' 0" by auto
  from Cons.prems have rest: "\<forall>i<length idxs. source_drop 1 g i = source_drop 1 g' i"
    by (auto simp: source_drop_def)
  show ?case
  proof (cases "vs = []")
    case True
    then show ?thesis by (simp add: random_choice_def)
  next
    case False
    then obtain c where c: "random_choice vs g = Inr (c, source_drop 1 g)"
      using random_choice_total [of vs g] by blast
    then have c': "random_choice vs g' = Inr (c, source_drop 1 g')"
      using random_choice_draw [of g g' vs] g0 by simp
    show ?thesis using Cons.IH [OF rest] by (simp add: c c' Let_def)
  qed
qed

section \<open>Invalid arguments and invalid tables\<close>

text \<open>
  The script checks none of its values: it has no \<open>InvalidArgument\<close> and no
  \<open>InvalidConfiguration\<close> error. What happens on the values the specification calls
  invalid is what the statements of the script do with them.
\<close>

lemma upt_1_2: "[1..<nat 2] = [1]"
  by (simp add: upt_conv_Cons)

lemma choice_two_vertices:
  "random_choice ([(0, 0), (2, 4)] :: point list) (const_source (Suc 0))
     = Inr ((2, 4), const_source (Suc 0))"
  by (simp add: random_choice_def source_drop_def const_source_def)

lemma sierpinski_two_vertices:
  "sierpinski_points [(0, 0), (2, 4)] 2 (const_source 1)
     = Inr ([(0, 0), (1, 2)], const_source 1)"
  unfolding sierpinski_points_def upt_1_2
  by (simp add: choice_two_vertices vdiv_def vadd_def Let_def numeral_2_eq_2)

text \<open>
  A negative depth and a list of two vertices are not rejected: the first call never
  reaches the base case, the second returns its two points.
\<close>

theorem invalid_argument_counterexample:
  "koch_curve_points (0, 0) (3, 0) (- 1) = None \<and>
   sierpinski_points [(0, 0), (2, 4)] 2 (const_source 1)
     = Inr ([(0, 0), (1, 2)], const_source 1)"
  by (intro conjI koch_negative_depth sierpinski_two_vertices) simp

text \<open>
  C8 (as amended). No argument is validated. A negative count makes either sampler fail
  with \<open>ValueError\<close> when its array is allocated, and a count of 0 with
  \<open>IndexError\<close> at the store of index 0, in both cases before a point is generated;
  an empty vertex list fails with \<open>IndexError\<close> at the read of the first vertex; a
  negative Koch depth never reaches the base case, so the call returns no sequence; and
  the Sierpinski sampler accepts a vertex list of any length but 0.
\<close>

theorem arguments_not_validated:
  "(n < 0 \<longrightarrow> barnsley_points ts n g = Inl ValueError) \<and>
   (n < 0 \<and> vs \<noteq> [] \<longrightarrow> sierpinski_points vs n h = Inl ValueError) \<and>
   barnsley_points ts 0 g = Inl IndexError \<and>
   (vs \<noteq> [] \<longrightarrow> sierpinski_points vs 0 h = Inl IndexError) \<and>
   sierpinski_points [] n h = Inl IndexError \<and>
   (depth < 0 \<longrightarrow> koch_curve_points p1 p2 depth = None) \<and>
   (vs \<noteq> [] \<and> 1 \<le> n \<longrightarrow>
      (\<exists>pts. sierpinski_points vs n h = Inr (pts, source_drop (nat n - 1) h)
         \<and> length pts = nat n))"
proof (intro conjI impI)
  show "barnsley_points ts n g = Inl ValueError" if "n < 0"
    using that by (simp add: barnsley_points_def)
  show "sierpinski_points vs n h = Inl ValueError" if "n < 0 \<and> vs \<noteq> []"
    using that by (simp add: sierpinski_points_def)
  show "barnsley_points ts 0 g = Inl IndexError"
    by (simp add: barnsley_points_def)
  show "sierpinski_points vs 0 h = Inl IndexError" if "vs \<noteq> []"
    using that by (simp add: sierpinski_points_def)
  show "sierpinski_points [] n h = Inl IndexError"
    by (simp add: sierpinski_points_def)
  show "koch_curve_points p1 p2 depth = None" if "depth < 0"
    using that by (rule koch_negative_depth)
  show "\<exists>pts. sierpinski_points vs n h = Inr (pts, source_drop (nat n - 1) h)
         \<and> length pts = nat n" if "vs \<noteq> [] \<and> 1 \<le> n"
    using sierpinski_points_run [of vs n h] that by blast
qed

theorem arguments_not_validated_witness:
  "barnsley_points transformations (- 1) (const_source 0) = Inl ValueError \<and>
   sierpinski_points [(0, 0), (2, 4)] (- 1) (const_source 0) = Inl ValueError \<and>
   sierpinski_points [(0, 0), (2, 4)] 0 (const_source 0) = Inl IndexError \<and>
   koch_curve_points (0, 0) (3, 0) (- 1) = None \<and>
   (\<exists>pts. sierpinski_points [(0, 0), (2, 4)] 2 (const_source 0)
        = Inr (pts, source_drop 1 (const_source 0)) \<and> length pts = 2)"
proof -
  note neg = arguments_not_validated [of "- 1" transformations "const_source 0"
      "[(0, 0), (2, 4)]" "const_source 0" "- 1" "(0, 0)" "(3, 0)"]
  note pos = arguments_not_validated [of 2 transformations "const_source 0"
      "[(0, 0), (2, 4)]" "const_source 0" "- 1" "(0, 0)" "(3, 0)"]
  from neg have "barnsley_points transformations (- 1) (const_source 0) = Inl ValueError"
    by simp
  moreover from neg
  have "sierpinski_points [(0, 0), (2, 4)] (- 1) (const_source 0) = Inl ValueError"
    by simp
  moreover from neg
  have "sierpinski_points [(0, 0), (2, 4)] 0 (const_source 0) = Inl IndexError"
    by simp
  moreover from neg have "koch_curve_points (0, 0) (3, 0) (- 1) = None"
    by simp
  moreover from pos
  have "\<exists>pts. sierpinski_points [(0, 0), (2, 4)] 2 (const_source 0)
        = Inr (pts, source_drop 1 (const_source 0)) \<and> length pts = 2"
    by simp
  ultimately show ?thesis by (intro conjI)
qed

lemma const_source_app: "const_source x i = x"
  by (simp add: const_source_def)

lemma choose_quarter:
  "choose_transformation [\<lparr>matrix = ((1, 0), (0, 1)), offset = (0, 0), prob = 1 / 4\<rparr>]
     (const_source (1 / 2))
     = Inr (\<lparr>matrix = ((1, 0), (0, 1)), offset = (0, 0), prob = 1 / 4\<rparr>, const_source (1 / 2))"
  by (simp add: choose_transformation_def random_random_def source_drop_const
      const_source_app Let_def)

lemma barnsley_quarter:
  "barnsley_points [\<lparr>matrix = ((1, 0), (0, 1)), offset = (0, 0), prob = 1 / 4\<rparr>] 2
     (const_source (1 / 2))
     = Inr ([(0, 0), (0, 0)], const_source (1 / 2))"
  unfolding barnsley_points_def upt_1_2
  by (simp add: choose_quarter apply_transformation_def vadd_def mat_dot_def Let_def
      numeral_2_eq_2)

lemma transformations_valid: "valid_table transformations"
  by (simp add: valid_table_def transformations_def)

lemma barnsley_empty_table: "2 \<le> n \<Longrightarrow> barnsley_points [] n g = Inl IndexError"
proof -
  assume n: "2 \<le> n"
  then have "[1..<nat n] = 1 # [Suc 1..<nat n]" by (intro upt_conv_Cons) simp
  with n show ?thesis
    by (simp add: barnsley_points_def choose_transformation_def random_random_def Let_def)
qed

text \<open>
  A table whose only weight is 1/4 is not valid, and the sampler runs on it.
\<close>

theorem table_validation_counterexample:
  "\<not> valid_table [\<lparr>matrix = ((1, 0), (0, 1)), offset = (0, 0), prob = 1 / 4\<rparr>] \<and>
   barnsley_points [\<lparr>matrix = ((1, 0), (0, 1)), offset = (0, 0), prob = 1 / 4\<rparr>] 2
     (const_source (1 / 2))
     = Inr ([(0, 0), (0, 0)], const_source (1 / 2))"
  by (intro conjI barnsley_quarter) (simp add: valid_table_def)

text \<open>
  C9 (as amended). The table is a literal that nothing validates. The table of the
  script is valid: it is not empty, its weights are positive and sum to 1 within
  \<open>1e-6\<close>. Any other
  non-empty table is accepted whatever its weights are: the sampler returns its count of
  points. An empty table fails with \<open>IndexError\<close> only when a transformation is chosen
  from it, that is for a count of 2 or more; for a count of 1 the sampler returns the
  start point.
\<close>

theorem table_not_validated:
  "valid_table transformations \<and>
   (ts \<noteq> [] \<and> 1 \<le> n \<longrightarrow>
      (\<exists>pts. barnsley_points ts n g = Inr (pts, source_drop (nat n - 1) g)
         \<and> length pts = nat n)) \<and>
   (2 \<le> n \<longrightarrow> barnsley_points [] n g = Inl IndexError) \<and>
   barnsley_points [] 1 g = Inr ([(0, 0)], g)"
proof (intro conjI impI)
  show "valid_table transformations" by (rule transformations_valid)
  show "\<exists>pts. barnsley_points ts n g = Inr (pts, source_drop (nat n - 1) g)
         \<and> length pts = nat n" if "ts \<noteq> [] \<and> 1 \<le> n"
    using barnsley_points_run [of ts n g] that by blast
  show "barnsley_points [] n g = Inl IndexError" if "2 \<le> n"
    using that by (rule barnsley_empty_table)
  show "barnsley_points [] 1 g = Inr ([(0, 0)], g)"
    by (simp add: barnsley_points_def)
qed

theorem table_not_validated_witness:
  "valid_table transformations \<and>
   (\<exists>pts. barnsley_points [\<lparr>matrix = ((1, 0), (0, 1)), offset = (0, 0), prob = - 1\<rparr>] 2
        (const_source (1 / 2))
      = Inr (pts, source_drop 1 (const_source (1 / 2))) \<and> length pts = 2) \<and>
   barnsley_points [] 2 (const_source (1 / 2)) = Inl IndexError"
proof -
  note inst = table_not_validated
    [of "[\<lparr>matrix = ((1, 0), (0, 1)), offset = (0, 0), prob = - 1\<rparr>]" 2 "const_source (1 / 2)"]
  from inst have "valid_table transformations" by simp
  moreover from inst
  have "\<exists>pts. barnsley_points [\<lparr>matrix = ((1, 0), (0, 1)), offset = (0, 0), prob = - 1\<rparr>] 2
        (const_source (1 / 2))
      = Inr (pts, source_drop 1 (const_source (1 / 2))) \<and> length pts = 2"
    by simp
  moreover from inst have "barnsley_points [] 2 (const_source (1 / 2)) = Inl IndexError"
    by simp
  ultimately show ?thesis by (intro conjI)
qed

section \<open>The script's own runs\<close>

text \<open>
  With the constants of the script, both samplers succeed from any state of the source:
  the fern has 200000 points and the triangle 30000.
\<close>

lemma animate_barnsley_points:
  "\<exists>pts. animate_barnsley g = Inr (pts, source_drop 199999 g) \<and> length pts = 200000
      \<and> pts ! 0 = (0, 0)"
proof -
  have "transformations \<noteq> []" by (simp add: transformations_def)
  from barnsley_points_run [OF this, of 200000 g] show ?thesis
    unfolding animate_barnsley_def by auto
qed

lemma animate_sierpinski_points:
  "\<exists>pts. animate_sierpinski g = Inr (pts, source_drop 29999 g) \<and> length pts = 30000
      \<and> pts ! 0 = (0, 0)"
  using sierpinski_points_run [of "[(0, 0), (2, 4), (4, 0)]" 30000 g]
  unfolding animate_sierpinski_def by auto

section \<open>Two calls and the state of the generator\<close>

text \<open>
  The samplers take no seed, and nothing in the script seeds the generator: a call reads
  the generator in the state it finds and leaves it advanced. Two calls in a row
  therefore read different draws. Below, the second call of each pair starts from the
  source that the first call returned.
\<close>

lemma list_source_drop: "source_drop (Suc 0) (list_source (x # xs) d) = list_source xs d"
  by (auto simp: source_drop_def list_source_def fun_eq_iff)

lemma list_source_0: "list_source (x # xs) d 0 = x"
  by (simp add: list_source_def)

lemma choose_first_call:
  "choose_transformation transformations (list_source [1 / 2, 0] 0)
     = Inr (transformations ! 1, list_source [0] 0)"
  by (simp add: choose_transformation_def random_random_def transformations_def Let_def
      list_source_0 list_source_drop)

lemma choose_second_call:
  "choose_transformation transformations (list_source [0] 0)
     = Inr (transformations ! 0, list_source [] 0)"
  by (simp add: choose_transformation_def random_random_def transformations_def Let_def
      list_source_0 list_source_drop)

lemma apply_fern_1: "apply_transformation (0, 0) (transformations ! 1) = (0, 16 / 10)"
  by (simp add: apply_transformation_def transformations_def vadd_def mat_dot_def)

lemma apply_fern_0: "apply_transformation (0, 0) (transformations ! 0) = (0, 0)"
  by (simp add: apply_transformation_def transformations_def vadd_def mat_dot_def)

lemma barnsley_first_call:
  "barnsley_points transformations 2 (list_source [1 / 2, 0] 0)
     = Inr ([(0, 0), (0, 16 / 10)], list_source [0] 0)"
  unfolding barnsley_points_def upt_1_2
  by (simp add: choose_first_call apply_fern_1 [simplified] Let_def numeral_2_eq_2)

lemma barnsley_second_call:
  "barnsley_points transformations 2 (list_source [0] 0)
     = Inr ([(0, 0), (0, 0)], list_source [] 0)"
  unfolding barnsley_points_def upt_1_2
  by (simp add: choose_second_call apply_fern_0 Let_def numeral_2_eq_2)

lemma sierpinski_first_call:
  "sierpinski_points [(0, 0), (2, 4), (4, 0)] 2 (list_source [1, 2] 0)
     = Inr ([(0, 0), (1, 2)], list_source [2] 0)"
  unfolding sierpinski_points_def upt_1_2
  by (simp add: random_choice_def list_source_0 list_source_drop vdiv_def vadd_def Let_def
      numeral_2_eq_2)

lemma sierpinski_second_call:
  "sierpinski_points [(0, 0), (2, 4), (4, 0)] 2 (list_source [2] 0)
     = Inr ([(0, 0), (2, 0)], list_source [] 0)"
  unfolding sierpinski_points_def upt_1_2
  by (simp add: random_choice_def list_source_0 list_source_drop vdiv_def vadd_def Let_def
      numeral_2_eq_2)

text \<open>
  With the same table (or vertices) and the same count, the second of two successive
  calls returns other points than the first.
\<close>

theorem two_calls_counterexample:
  "barnsley_points transformations 2 (list_source [1 / 2, 0] 0)
     = Inr ([(0, 0), (0, 16 / 10)], list_source [0] 0) \<and>
   barnsley_points transformations 2 (list_source [0] 0)
     = Inr ([(0, 0), (0, 0)], list_source [] 0) \<and>
   sierpinski_points [(0, 0), (2, 4), (4, 0)] 2 (list_source [1, 2] 0)
     = Inr ([(0, 0), (1, 2)], list_source [2] 0) \<and>
   sierpinski_points [(0, 0), (2, 4), (4, 0)] 2 (list_source [2] 0)
     = Inr ([(0, 0), (2, 0)], list_source [] 0)"
  by (intro conjI barnsley_first_call barnsley_second_call sierpinski_first_call
      sierpinski_second_call)

text \<open>
  C7 (as amended). The script has no seed. For a given table (or vertices) and count,
  the outcome of a sampler is determined by the \<open>count - 1\<close> draws it takes: two calls
  from generators that yield the same draws, as two generators seeded alike do, return
  the same point sequence or fail alike. A successful call leaves the generator
  advanced by exactly \<open>count - 1\<close> draws, so that a second call on the same generator
  continues with later draws.
\<close>

theorem samplers_determined_by_draws:
  "((\<forall>i. int i < n - 1 \<longrightarrow> g i = g' i) \<longrightarrow>
      map_sum id fst (barnsley_points ts n g) = map_sum id fst (barnsley_points ts n g')) \<and>
   ((\<forall>i. int i < n - 1 \<longrightarrow> h i = h' i) \<longrightarrow>
      map_sum id fst (sierpinski_points vs n h) = map_sum id fst (sierpinski_points vs n h')) \<and>
   (ts \<noteq> [] \<and> 1 \<le> n \<longrightarrow>
      map_sum id snd (barnsley_points ts n g) = Inr (source_drop (nat n - 1) g)) \<and>
   (vs \<noteq> [] \<and> 1 \<le> n \<longrightarrow>
      map_sum id snd (sierpinski_points vs n h) = Inr (source_drop (nat n - 1) h))"
proof (intro conjI impI)
  assume "\<forall>i. int i < n - 1 \<longrightarrow> g i = g' i"
  then have "\<forall>i<length [1..<nat n]. g i = g' i" by auto
  then show "map_sum id fst (barnsley_points ts n g) = map_sum id fst (barnsley_points ts n g')"
    unfolding barnsley_points_def Let_def by (simp add: barnsley_loop_agree)
next
  assume "\<forall>i. int i < n - 1 \<longrightarrow> h i = h' i"
  then have "\<forall>i<length [1..<nat n]. h i = h' i" by auto
  then show "map_sum id fst (sierpinski_points vs n h) = map_sum id fst (sierpinski_points vs n h')"
    unfolding sierpinski_points_def Let_def by (simp add: sierpinski_loop_agree)
next
  assume "ts \<noteq> [] \<and> 1 \<le> n"
  then obtain pts where "barnsley_points ts n g = Inr (pts, source_drop (nat n - 1) g)"
    using barnsley_points_run [of ts n g] by blast
  then show "map_sum id snd (barnsley_points ts n g) = Inr (source_drop (nat n - 1) g)"
    by simp
next
  assume "vs \<noteq> [] \<and> 1 \<le> n"
  then obtain pts where "sierpinski_points vs n h = Inr (pts, source_drop (nat n - 1) h)"
    using sierpinski_points_run [of vs n h] by blast
  then show "map_sum id snd (sierpinski_points vs n h) = Inr (source_drop (nat n - 1) h)"
    by simp
qed

theorem samplers_determined_by_draws_witness:
  "map_sum id fst (barnsley_points transformations 3 (list_source [1 / 2, 1 / 2] 0))
     = map_sum id fst (barnsley_points transformations 3 (list_source [1 / 2, 1 / 2] 1)) \<and>
   map_sum id fst (sierpinski_points [(0, 0), (2, 4), (4, 0)] 3 (list_source [1, 2] 0))
     = map_sum id fst (sierpinski_points [(0, 0), (2, 4), (4, 0)] 3 (list_source [1, 2] 1)) \<and>
   map_sum id snd (barnsley_points transformations 3 (list_source [1 / 2, 1 / 2] 0))
     = Inr (source_drop 2 (list_source [1 / 2, 1 / 2] 0)) \<and>
   map_sum id snd (sierpinski_points [(0, 0), (2, 4), (4, 0)] 3 (list_source [1, 2] 0))
     = Inr (source_drop 2 (list_source [1, 2] 0))"
proof -
  have a: "\<forall>i. int i < 3 - 1 \<longrightarrow>
      list_source [1 / 2, 1 / 2] (0 :: real) i = list_source [1 / 2, 1 / 2] 1 i"
    by (simp add: list_source_def)
  have b: "\<forall>i. int i < 3 - 1 \<longrightarrow> list_source [1, 2] (0 :: nat) i = list_source [1, 2] 1 i"
    by (simp add: list_source_def)
  have c: "transformations \<noteq> [] \<and> (1 :: int) \<le> 3" by (simp add: transformations_def)
  have d: "([(0, 0), (2, 4), (4, 0)] :: point list) \<noteq> [] \<and> (1 :: int) \<le> 3" by simp
  have e: "nat 3 - 1 = 2" by simp
  note inst = samplers_determined_by_draws
    [of 3 "list_source [1 / 2, 1 / 2] 0" "list_source [1 / 2, 1 / 2] 1"
      transformations "list_source [1, 2] 0" "list_source [1, 2] 1" "[(0, 0), (2, 4), (4, 0)]"]
  from inst a have "map_sum id fst (barnsley_points transformations 3 (list_source [1 / 2, 1 / 2] 0))
     = map_sum id fst (barnsley_points transformations 3 (list_source [1 / 2, 1 / 2] 1))"
    by blast
  moreover from inst b
  have "map_sum id fst (sierpinski_points [(0, 0), (2, 4), (4, 0)] 3 (list_source [1, 2] 0))
     = map_sum id fst (sierpinski_points [(0, 0), (2, 4), (4, 0)] 3 (list_source [1, 2] 1))"
    by blast
  moreover from inst c
  have "map_sum id snd (barnsley_points transformations 3 (list_source [1 / 2, 1 / 2] 0))
     = Inr (source_drop (nat 3 - 1) (list_source [1 / 2, 1 / 2] 0))"
    by blast
  moreover from inst d
  have "map_sum id snd (sierpinski_points [(0, 0), (2, 4), (4, 0)] 3 (list_source [1, 2] 0))
     = Inr (source_drop (nat 3 - 1) (list_source [1, 2] 0))"
    by blast
  ultimately show ?thesis unfolding e by (intro conjI)
qed

section \<open>The Sierpinski sampler in float64\<close>

subsection \<open>Rounding\<close>

lemma round_half_even_floor: "\<lfloor>y\<rfloor> \<le> round_half_even y"
  by (simp add: round_half_even_def Let_def)

lemma round_half_even_lower: "of_int k \<le> y \<Longrightarrow> k \<le> round_half_even y"
  using round_half_even_floor [of y] by linarith

lemma round_half_even_upper: "y \<le> of_int k \<Longrightarrow> round_half_even y \<le> k"
proof -
  assume le: "y \<le> of_int k"
  show ?thesis
  proof (cases "y = of_int \<lfloor>y\<rfloor>")
    case True
    then have "round_half_even y = \<lfloor>y\<rfloor>" by (simp add: round_half_even_def Let_def)
    with le True show ?thesis by linarith
  next
    case False
    moreover have "of_int \<lfloor>y\<rfloor> \<le> y" by (rule of_int_floor_le)
    ultimately have "of_int \<lfloor>y\<rfloor> < y" by (rule order.not_eq_order_implies_strict [OF not_sym])
    with le have "\<lfloor>y\<rfloor> < k" by linarith
    moreover have "round_half_even y \<le> \<lfloor>y\<rfloor> + 1" by (simp add: round_half_even_def Let_def)
    ultimately show ?thesis by simp
  qed
qed

lemma binade:
  assumes "x \<noteq> 0"
  shows "2 powr of_int \<lfloor>log 2 \<bar>x\<bar>\<rfloor> \<le> \<bar>x\<bar>"
    and "\<bar>x\<bar> < 2 powr (of_int \<lfloor>log 2 \<bar>x\<bar>\<rfloor> + 1)"
  using assms floor_log_eq_powr_iff [of "\<bar>x\<bar>" 2 "\<lfloor>log 2 \<bar>x\<bar>\<rfloor>"] by simp_all

text \<open>A representable number of magnitude at least \<open>2 ^ e\<close> is a multiple of \<open>2 ^ (e - 52)\<close>.\<close>

lemma is_f64_multiple:
  assumes "is_f64 a" and "2 powr of_int e \<le> \<bar>a\<bar>"
  shows "\<exists>k :: int. a = of_int k * 2 powr of_int (e - 52)"
proof -
  from assms(1) obtain m j :: int where m: "\<bar>m\<bar> < 2 ^ 53" and a: "a = of_int m * 2 powr of_int j"
    unfolding is_f64_def by blast
  have "\<bar>a\<bar> = \<bar>of_int m\<bar> * 2 powr of_int j" by (simp add: a abs_mult)
  also have "\<dots> < 2 ^ 53 * 2 powr of_int j"
  proof -
    have "\<bar>real_of_int m\<bar> < 2 ^ 53" using m by (metis of_int_abs of_int_less_numeral_power_cancel_iff)
    then show ?thesis by simp
  qed
  also have "\<dots> = 2 powr of_int (53 + j)" by (simp add: powr_add powr_realpow [symmetric])
  finally have "\<bar>a\<bar> < 2 powr of_int (53 + j)" .
  with assms(2) have "(2 :: real) powr of_int e < 2 powr of_int (53 + j)" by (rule le_less_trans)
  then have "e < 53 + j" by simp
  then have t: "0 \<le> j - (e - 52)" by simp
  define k where "k = m * 2 ^ nat (j - (e - 52))"
  have "(2 :: real) powr of_int j = 2 powr of_int (j - (e - 52)) * 2 powr of_int (e - 52)"
    by (simp add: powr_add [symmetric])
  also have "(2 :: real) powr of_int (j - (e - 52)) = 2 ^ nat (j - (e - 52))"
    using t powr_real_of_int [of 2 "j - (e - 52)"] by simp
  finally have "a = of_int k * 2 powr of_int (e - 52)" by (simp add: a k_def)
  then show ?thesis by blast
qed

lemma binade_scale: "(2 :: real) powr of_int e = 2 ^ 52 * 2 powr of_int (e - 52)"
proof -
  have "(2 :: real) powr of_int e = 2 powr (52 + of_int (e - 52))" by simp
  also have "\<dots> = 2 powr 52 * 2 powr of_int (e - 52)" by (rule powr_add)
  also have "(2 :: real) powr 52 = 2 ^ 52"
    using powr_realpow [of 2 52] by simp
  finally show ?thesis .
qed

lemma fl64_unfold:
  "x \<noteq> 0 \<Longrightarrow>
     fl64 x = of_int (round_half_even (x / 2 powr of_int (\<lfloor>log 2 \<bar>x\<bar>\<rfloor> - 52)))
                * 2 powr of_int (\<lfloor>log 2 \<bar>x\<bar>\<rfloor> - 52)"
  by (simp add: fl64_def Let_def)

text \<open>Rounding does not cross a representable number, from either side.\<close>

lemma fl64_lower:
  assumes "is_f64 a" and "a \<le> x"
  shows "a \<le> fl64 x"
proof (cases "x = 0")
  case True
  with assms(2) show ?thesis by (simp add: fl64_def)
next
  case False
  define e where "e = \<lfloor>log 2 \<bar>x\<bar>\<rfloor>"
  define q :: real where "q = 2 powr of_int (e - 52)"
  have q: "0 < q" by (simp add: q_def)
  have fl: "fl64 x = of_int (round_half_even (x / q)) * q"
    using fl64_unfold [OF False] by (simp add: q_def e_def)
  have low: "2 powr of_int e \<le> \<bar>x\<bar>" using binade(1) [OF False] by (simp add: e_def)
  have scale: "2 powr of_int e = 2 ^ 52 * q" unfolding q_def by (rule binade_scale)
  show ?thesis
  proof (cases "0 < x \<and> a \<le> 2 powr of_int e")
    case True
    then have "2 ^ 52 * q \<le> x" using low scale by simp
    then have "of_int (2 ^ 52) \<le> x / q" using q by (simp add: pos_le_divide_eq)
    then have "2 ^ 52 \<le> round_half_even (x / q)" by (rule round_half_even_lower)
    then have "(2 :: real) ^ 52 \<le> of_int (round_half_even (x / q))"
      by (metis of_int_le_iff of_int_numeral of_int_power)
    then have "2 ^ 52 * q \<le> fl64 x" using q by (simp add: fl)
    with True scale show ?thesis by simp
  next
    case no: False
    have "2 powr of_int e \<le> \<bar>a\<bar>"
    proof (cases "0 < x")
      case True
      with no have "2 powr of_int e < a" by simp
      then show ?thesis by simp
    next
      case neg: False
      with False assms(2) have "\<bar>x\<bar> \<le> \<bar>a\<bar>" by simp
      with low show ?thesis by simp
    qed
    then obtain k :: int where k: "a = of_int k * q"
      using is_f64_multiple [OF assms(1)] unfolding q_def by blast
    from assms(2) have "of_int k \<le> x / q" using q by (simp add: k pos_le_divide_eq)
    then have "k \<le> round_half_even (x / q)" by (rule round_half_even_lower)
    then have "of_int k * q \<le> of_int (round_half_even (x / q)) * q" using q by simp
    then show ?thesis by (simp add: k fl)
  qed
qed

lemma fl64_upper:
  assumes "is_f64 b" and "x \<le> b"
  shows "fl64 x \<le> b"
proof (cases "x = 0")
  case True
  with assms(2) show ?thesis by (simp add: fl64_def)
next
  case False
  define e where "e = \<lfloor>log 2 \<bar>x\<bar>\<rfloor>"
  define q :: real where "q = 2 powr of_int (e - 52)"
  have q: "0 < q" by (simp add: q_def)
  have fl: "fl64 x = of_int (round_half_even (x / q)) * q"
    using fl64_unfold [OF False] by (simp add: q_def e_def)
  have low: "2 powr of_int e \<le> \<bar>x\<bar>" using binade(1) [OF False] by (simp add: e_def)
  have scale: "2 powr of_int e = 2 ^ 52 * q" unfolding q_def by (rule binade_scale)
  show ?thesis
  proof (cases "x < 0 \<and> - (2 powr of_int e) \<le> b")
    case True
    then have "x \<le> - (2 ^ 52 * q)" using low scale by simp
    then have "x / q \<le> of_int (- (2 ^ 52))" using q by (simp add: pos_divide_le_eq)
    then have "round_half_even (x / q) \<le> - (2 ^ 52)" by (rule round_half_even_upper)
    then have "of_int (round_half_even (x / q)) \<le> - ((2 :: real) ^ 52)"
      by (metis of_int_le_iff of_int_minus of_int_numeral of_int_power)
    then have "fl64 x \<le> - (2 ^ 52 * q)" using q by (simp add: fl pos_le_divide_eq [symmetric]) 
    with True scale show ?thesis by simp
  next
    case no: False
    have "2 powr of_int e \<le> \<bar>b\<bar>"
    proof (cases "x < 0")
      case True
      with no have "b < - (2 powr of_int e)" by simp
      then show ?thesis by simp
    next
      case pos: False
      with False assms(2) have "\<bar>x\<bar> \<le> \<bar>b\<bar>" by simp
      with low show ?thesis by simp
    qed
    then obtain k :: int where k: "b = of_int k * q"
      using is_f64_multiple [OF assms(1)] unfolding q_def by blast
    from assms(2) have "x / q \<le> of_int k" using q by (simp add: k pos_divide_le_eq)
    then have "round_half_even (x / q) \<le> k" by (rule round_half_even_upper)
    then have "of_int (round_half_even (x / q)) * q \<le> of_int k * q" using q by simp
    then show ?thesis by (simp add: k fl)
  qed
qed

lemma fl64_id: "is_f64 a \<Longrightarrow> fl64 a = a"
  using fl64_lower [of a a] fl64_upper [of a a] by simp


lemma fl64_point_id: "is_f64 (fst p) \<Longrightarrow> is_f64 (snd p) \<Longrightarrow> fl64_point p = p"
  by (simp add: fl64_point_def fl64_id)




subsection \<open>The rounded iteration\<close>



subsection \<open>The points stay in the bounding box\<close>







subsection \<open>A point outside the triangle\<close>















end
